theory Spec2Isabelle
  imports Main "HOL-Library.Word" "HOL-Library.Signed_Division"
begin

unbundle bit_operations_syntax

section \<open>Data model\<close>

text \<open>
  Go's \<^verbatim>\<open>int32\<close> and \<^verbatim>\<open>int64\<close> are words that wrap around; \<open>sint\<close> reads
  them as two's complement. Go's \<^verbatim>\<open>int\<close> (64 bits) is used only for slice
  lengths and indices, which never leave its range, and is modelled by \<open>int\<close>.
  Go's \<^verbatim>\<open>%\<close> truncates towards zero: it is \<open>smod\<close>, not \<open>mod\<close>.
\<close>

type_synonym int32 = "32 word"
type_synonym int64 = "64 word"

text \<open>A parsed \<^verbatim>\<open>*url.URL\<close> is kept as its text; \<open>None\<close> is the nil pointer.\<close>

type_synonym url = string

text \<open>
  \<^verbatim>\<open>type simpleServer struct { addr; proxy; activeConns int32; alive bool; mu; requests int64 }\<close>.
  The reverse proxy is represented by the target it was built from. The mutex
  \<^verbatim>\<open>mu\<close> only makes reads and writes of \<^verbatim>\<open>alive\<close> atomic, so it has no
  field here: every access below is one step.
\<close>

record simpleServer =
  addr :: string
  proxy :: "url option"
  activeConns :: int32
  alive :: bool
  requests :: int64

text \<open>
  \<^verbatim>\<open>lb.servers\<close> is a slice of pointers to the structs that \<^verbatim>\<open>main\<close>
  allocates, one per configured address. The model keeps the structs in a list
  in pool order; a \<^verbatim>\<open>*simpleServer\<close> is an index into that list, or \<open>None\<close>
  for the nil pointer.

  A value of the interface type \<^verbatim>\<open>Server\<close> is either the nil interface or a
  \<^verbatim>\<open>*simpleServer\<close> wrapped in the interface. In Go the comparison
  \<^verbatim>\<open>x == nil\<close> on an interface value is true for the nil interface only: an
  interface that wraps a nil \<^verbatim>\<open>*simpleServer\<close> is not equal to nil.
\<close>

datatype Server = NilServer | SimpleServerPtr "nat option"

datatype panic =
    IndexOutOfRange int
  | IntegerDivideByZero
  | InvalidArgumentToIntn
  | NilPointerDereference
  | ProxyPanic

record LoadBalancer =
  servers :: "simpleServer list"
  port :: string
  algorithm :: string

section \<open>Construction\<close>

text \<open>
  \<^verbatim>\<open>url.Parse\<close> belongs to the standard library and is a parameter
  \<open>parse\<close>: \<open>Inl\<close> carries the error text, \<open>Inr\<close> the URL.
  \<^verbatim>\<open>handleErr\<close> prints a non-nil error and returns; the printed lines are
  the first component of the result. On a parse error \<^verbatim>\<open>serverUrl\<close> is nil and
  \<^verbatim>\<open>httputil.NewSingleHostReverseProxy\<close> stores it in the director's closure
  without reading it (Go 1.20 and later; the range-over-int loop of the
  round-robin selector needs Go 1.22).
\<close>

definition handleErr :: "string option \<Rightarrow> string list" where
  "handleErr err = (case err of None \<Rightarrow> [] | Some e \<Rightarrow> [e])"

definition initialiseServer :: "(string \<Rightarrow> string + url) \<Rightarrow> string \<Rightarrow> string list \<times> simpleServer" where
  "initialiseServer parse a =
     (let (serverUrl, err) = (case parse a of Inl e \<Rightarrow> (None, Some e) | Inr u \<Rightarrow> (Some u, None))
      in (handleErr err,
          \<lparr>addr = a, proxy = serverUrl, activeConns = 0, alive = True, requests = 0\<rparr>))"

text \<open>The loop of \<^verbatim>\<open>main\<close> that builds the pool from \<^verbatim>\<open>cfg.Backends\<close>.\<close>

fun main_servers :: "(string \<Rightarrow> string + url) \<Rightarrow> string list \<Rightarrow> string list \<times> simpleServer list" where
  "main_servers parse [] = ([], [])"
| "main_servers parse (a # as) =
     (let (out, s) = initialiseServer parse a;
          (outs, ss) = main_servers parse as
      in (out @ outs, s # ss))"

definition newLoadBalancer :: "simpleServer list \<Rightarrow> string \<Rightarrow> string \<Rightarrow> LoadBalancer" where
  "newLoadBalancer pool p algo = \<lparr>servers = pool, port = p, algorithm = algo\<rparr>"

text \<open>
  The sibling constructor \<^verbatim>\<open>NewLoadBalancer\<close> of
  \<^verbatim>\<open>internal/proxy/loadbalancer.go\<close>: it returns the parse error of the
  first malformed address and no balancer.
\<close>

record Backend =
  URL :: url

record ProxyLoadBalancer =
  backends :: "Backend list"
  current :: "64 word"

fun NewLoadBalancer_loop :: "(string \<Rightarrow> string + url) \<Rightarrow> string list \<Rightarrow> Backend list \<Rightarrow> string + Backend list" where
  "NewLoadBalancer_loop parse [] acc = Inr acc"
| "NewLoadBalancer_loop parse (a # as) acc =
     (case parse a of
        Inl e \<Rightarrow> Inl e
      | Inr u \<Rightarrow> NewLoadBalancer_loop parse as (acc @ [\<lparr>URL = u\<rparr>]))"

definition NewLoadBalancer :: "(string \<Rightarrow> string + url) \<Rightarrow> string list \<Rightarrow> string + ProxyLoadBalancer" where
  "NewLoadBalancer parse cfg_backends =
     (case NewLoadBalancer_loop parse cfg_backends [] of
        Inl e \<Rightarrow> Inl e
      | Inr bs \<Rightarrow> Inr \<lparr>backends = bs, current = 0\<rparr>)"

section \<open>Backend counters and liveness\<close>

text \<open>
  \<^verbatim>\<open>increment\<close> and \<^verbatim>\<open>decrement\<close> are atomic additions on the struct; the
  Prometheus gauge they also set mirrors \<^verbatim>\<open>activeConns\<close> and is not modelled.
\<close>

definition increment :: "simpleServer \<Rightarrow> simpleServer" where
  "increment s = s\<lparr>activeConns := activeConns s + 1, requests := requests s + 1\<rparr>"

definition decrement :: "simpleServer \<Rightarrow> simpleServer" where
  "decrement s = s\<lparr>activeConns := activeConns s + (- 1)\<rparr>"

definition getActiveConns :: "simpleServer \<Rightarrow> int32" where
  "getActiveConns s = activeConns s"

definition isAlive :: "simpleServer \<Rightarrow> bool" where
  "isAlive s = alive s"

text \<open>
  The probe of \<^verbatim>\<open>checkHealth\<close>: \<^verbatim>\<open>client.Get\<close> with a client whose timeout
  is two seconds returns an error (connection refused, timeout, ...) or a
  response with a status code. \<^verbatim>\<open>http.StatusOK\<close> is 200. The second component
  of the result is the row written by \<^verbatim>\<open>logHealthCheck\<close> (without the latency).
\<close>

datatype probe = ProbeError | ProbeResponse int

definition StatusOK :: int where
  "StatusOK = 200"

definition StatusServiceUnavailable :: int where
  "StatusServiceUnavailable = 503"

definition checkHealth :: "probe \<Rightarrow> simpleServer \<Rightarrow> simpleServer \<times> (string \<times> bool)" where
  "checkHealth p s =
     (if p = ProbeError \<or> (case p of ProbeResponse c \<Rightarrow> c \<noteq> StatusOK | ProbeError \<Rightarrow> True)
      then (s\<lparr>alive := False\<rparr>, (addr s, False))
      else (s\<lparr>alive := True\<rparr>, (addr s, True)))"

text \<open>
  One round of the monitor loop of \<^verbatim>\<open>main\<close>: every backend is probed once,
  each probe in its own goroutine touching its own struct only; \<open>ps\<close> gives
  the outcome of the probe of each backend, in pool order.
\<close>

fun health_round :: "probe list \<Rightarrow> simpleServer list \<Rightarrow> simpleServer list" where
  "health_round (p # ps) (s # ss) = fst (checkHealth p s) # health_round ps ss"
| "health_round _ ss = ss"

section \<open>Selection\<close>

subsection \<open>Round robin\<close>

text \<open>
  \<^verbatim>\<open>for i := range total { index := (start + i) % total; ... }\<close> over the
  indices \<open>[0..<total]\<close>. Indexing the slice with an index outside
  \<open>0 \<le> index < total\<close> panics.
\<close>

fun rr_scan :: "simpleServer list \<Rightarrow> int \<Rightarrow> nat list \<Rightarrow> panic + Server" where
  "rr_scan pool start [] = Inr NilServer"
| "rr_scan pool start (i # rest) =
     (let index = (start + int i) smod int (length pool) in
      if index < 0 \<or> int (length pool) \<le> index then Inl (IndexOutOfRange index)
      else if isAlive (pool ! nat index) then Inr (SimpleServerPtr (Some (nat index)))
      else rr_scan pool start rest)"

text \<open>
  \<^verbatim>\<open>start := int(atomic.AddInt32(&rrCounter, 1) % int32(total))\<close>:
  \<^verbatim>\<open>AddInt32\<close> returns the new value of the counter, \<^verbatim>\<open>int32(total)\<close> keeps
  the low 32 bits of the length, and a zero divisor panics. The global
  \<^verbatim>\<open>rrCounter\<close> is passed in and returned.
\<close>

definition getNextRoundRobinServer :: "simpleServer list \<Rightarrow> int32 \<Rightarrow> (panic + Server) \<times> int32" where
  "getNextRoundRobinServer pool rr =
     (let total = length pool in
      if total = 0 then (Inr NilServer, rr)
      else
        let rr' = rr + 1;
            total32 = (word_of_nat total :: int32)
        in if total32 = 0 then (Inl IntegerDivideByZero, rr')
           else (rr_scan pool (sint rr' smod sint total32) [0..<total], rr'))"

subsection \<open>Least connections\<close>

text \<open>
  The first loop of \<^verbatim>\<open>getLeastConnServer\<close>, with the position \<open>i\<close> of the
  element in the pool, the pointer \<^verbatim>\<open>selected\<close> and the running minimum
  \<^verbatim>\<open>min\<close>. The comparison \<^verbatim>\<open>c < min\<close> is signed.
\<close>

fun lc_scan :: "simpleServer list \<Rightarrow> nat \<Rightarrow> nat option \<Rightarrow> int32 \<Rightarrow> nat option" where
  "lc_scan [] i selected m = selected"
| "lc_scan (srv # rest) i selected m =
     (if isAlive srv then
        (let c = getActiveConns srv in
         if sint c < sint m then lc_scan rest (Suc i) (Some i) c
         else lc_scan rest (Suc i) selected m)
      else lc_scan rest (Suc i) selected m)"

text \<open>
  \<^verbatim>\<open>min := int32(^uint32(0) >> 1)\<close>. The second loop only prints. The function
  returns the variable \<^verbatim>\<open>selected\<close>, of type \<^verbatim>\<open>*simpleServer\<close>, as a
  \<^verbatim>\<open>Server\<close>: the result is always a wrapped pointer, also when the pointer
  is nil.
\<close>

definition getLeastConnServer :: "simpleServer list \<Rightarrow> panic + Server" where
  "getLeastConnServer pool =
     Inr (SimpleServerPtr (lc_scan pool 0 None (drop_bit 1 (NOT 0))))"

subsection \<open>Random\<close>

text \<open>
  \<^verbatim>\<open>rand.Intn(n)\<close> panics when \<open>n \<le> 0\<close> and otherwise returns a number
  below \<open>n\<close>. The generator is a parameter \<open>rnd\<close>, the sequence of its draws;
  \<open>k\<close> counts the draws made so far. The loop \<^verbatim>\<open>for { ... }\<close> has no exit
  but the \<^verbatim>\<open>return\<close> inside: a run that never returns has the value \<open>None\<close>.
\<close>

partial_function (option) getRandomServer ::
  "simpleServer list \<Rightarrow> (nat \<Rightarrow> nat) \<Rightarrow> nat \<Rightarrow> ((panic + Server) \<times> nat) option" where
  "getRandomServer pool rnd k =
     (if length pool = 0 then Some (Inl InvalidArgumentToIntn, k)
      else
        let j = rnd k mod length pool in
        if isAlive (pool ! j) then Some (Inr (SimpleServerPtr (Some j)), Suc k)
        else getRandomServer pool rnd (Suc k))"

subsection \<open>Choice of the algorithm\<close>

record selector_state =
  rrCounter :: int32
  draws :: nat

definition getNextAvailableSever ::
  "(nat \<Rightarrow> nat) \<Rightarrow> LoadBalancer \<Rightarrow> selector_state \<Rightarrow> ((panic + Server) \<times> selector_state) option" where
  "getNextAvailableSever rnd lb st =
     (if algorithm lb = ''roundrobin'' then
        (let (r, rr') = getNextRoundRobinServer (servers lb) (rrCounter st)
         in Some (r, st\<lparr>rrCounter := rr'\<rparr>))
      else if algorithm lb = ''leastconn'' then
        Some (getLeastConnServer (servers lb), st)
      else
        (case getRandomServer (servers lb) rnd (draws st) of
           None \<Rightarrow> None
         | Some (r, k') \<Rightarrow> Some (r, st\<lparr>draws := k'\<rparr>)))"

text \<open>Sequential calls of the round-robin selector from one goroutine.\<close>

fun rr_calls :: "simpleServer list \<Rightarrow> int32 \<Rightarrow> nat \<Rightarrow> (panic + Server) list" where
  "rr_calls pool rr 0 = []"
| "rr_calls pool rr (Suc n) =
     (let (r, rr') = getNextRoundRobinServer pool rr in r # rr_calls pool rr' n)"

text \<open>The pools of the scenarios.\<close>

definition backend :: "string \<Rightarrow> int32 \<Rightarrow> bool \<Rightarrow> simpleServer" where
  "backend a c l = \<lparr>addr = a, proxy = Some a, activeConns = c, alive = l, requests = 0\<rparr>"

definition pool_ABC :: "simpleServer list" where
  "pool_ABC = [backend ''A'' 0 True, backend ''B'' 0 True, backend ''C'' 0 True]"

definition pool_conns :: "simpleServer list" where
  "pool_conns = [backend ''A'' 2 True, backend ''B'' 0 True, backend ''C'' 1 True]"

definition pool_dead :: "simpleServer list" where
  "pool_dead = [backend ''A'' 0 False, backend ''B'' 0 False]"

text \<open>
  The scan that the round-robin rule describes: starting at \<open>cursor mod poolSize\<close>,
  go forward circularly for at most \<open>poolSize\<close> steps and take the first alive
  backend. It is the specification the selector is compared with.
\<close>

definition spec_round_robin :: "simpleServer list \<Rightarrow> nat \<Rightarrow> nat option" where
  "spec_round_robin pool cursor =
     map_option (\<lambda>i. (cursor mod length pool + i) mod length pool)
       (find (\<lambda>i. isAlive (pool ! ((cursor mod length pool + i) mod length pool)))
          [0..<length pool])"

section \<open>Dispatch\<close>

text \<open>
  The client's \<^verbatim>\<open>http.ResponseWriter\<close> records the status codes passed to
  its \<^verbatim>\<open>WriteHeader\<close> and the bodies written, in call order.
  \<^verbatim>\<open>http.Error\<close> calls \<^verbatim>\<open>WriteHeader\<close> with the code and writes the message
  with \<^verbatim>\<open>fmt.Fprintln\<close>, that is, followed by a newline.
\<close>

record http_ResponseWriter =
  codes :: "int list"
  bodies :: "string list"

definition http_Error :: "http_ResponseWriter \<Rightarrow> string \<Rightarrow> int \<Rightarrow> http_ResponseWriter" where
  "http_Error rw msg code =
     rw\<lparr>codes := codes rw @ [code], bodies := bodies rw @ [msg @ [CHR 0x0A]]\<rparr>"

text \<open>
  \<^verbatim>\<open>type loggingResponseWriter struct { http.ResponseWriter; statusCode int }\<close>.
  Only \<^verbatim>\<open>WriteHeader\<close> is overridden; \<^verbatim>\<open>Write\<close> is the embedded writer's.
\<close>

record loggingResponseWriter =
  ResponseWriter :: http_ResponseWriter
  statusCode :: int

definition WriteHeader :: "int \<Rightarrow> loggingResponseWriter \<Rightarrow> loggingResponseWriter" where
  "WriteHeader code lrw =
     lrw\<lparr>statusCode := code,
         ResponseWriter := (ResponseWriter lrw)\<lparr>codes := codes (ResponseWriter lrw) @ [code]\<rparr>\<rparr>"

definition Write :: "string \<Rightarrow> loggingResponseWriter \<Rightarrow> loggingResponseWriter" where
  "Write b lrw =
     lrw\<lparr>ResponseWriter := (ResponseWriter lrw)\<lparr>bodies := bodies (ResponseWriter lrw) @ [b]\<rparr>\<rparr>"

text \<open>
  The reverse proxy is a collaborator. What it does with one request is a
  parameter \<open>forward\<close>: the calls it makes on the writer it was given, in
  order, and whether it ends by returning or by panicking.
\<close>

record Request =
  RemoteAddr :: string
  Path :: string

datatype writer_call = CallWriteHeader int | CallWrite string

record proxy_run =
  calls :: "writer_call list"
  panics :: bool

fun apply_call :: "loggingResponseWriter \<Rightarrow> writer_call \<Rightarrow> loggingResponseWriter" where
  "apply_call lrw (CallWriteHeader code) = WriteHeader code lrw"
| "apply_call lrw (CallWrite b) = Write b lrw"

definition Address :: "simpleServer \<Rightarrow> string" where
  "Address s = addr s"

text \<open>
  \<^verbatim>\<open>Serve\<close>: increment, then the proxy call, and the deferred decrement, which
  runs when the proxy call returns and also when it panics. The first
  component of the result is the panic that leaves \<^verbatim>\<open>Serve\<close>, if any.
\<close>

definition Serve ::
  "(url option \<Rightarrow> Request \<Rightarrow> proxy_run) \<Rightarrow> simpleServer \<Rightarrow> loggingResponseWriter \<Rightarrow> Request
     \<Rightarrow> panic option \<times> simpleServer \<times> loggingResponseWriter" where
  "Serve forward s lrw req =
     (let s1 = increment s;
          run = forward (proxy s1) req;
          lrw' = foldl apply_call lrw (calls run);
          s2 = decrement s1
      in (if panics run then Some ProxyPanic else None, s2, lrw'))"

text \<open>
  The state around \<^verbatim>\<open>serveProxy\<close>: the balancer with its backends, the
  selector's counter and generator position, the rows written by
  \<^verbatim>\<open>logRequest\<close> (client address, path, backend, status code) and the label
  triples counted by \<^verbatim>\<open>requestsTotal\<close> (backend, algorithm, status code).
  Latencies are left out.
\<close>

record dispatcher_state =
  lb :: LoadBalancer
  sel :: selector_state
  request_logs :: "(string \<times> string \<times> string \<times> int) list"
  requests_total :: "(string \<times> string \<times> int) list"

datatype outcome = Returned | Panicked panic

text \<open>
  \<^verbatim>\<open>serveProxy\<close>. The test \<^verbatim>\<open>targetServer == nil\<close> holds for the nil
  interface only. With a wrapped nil pointer the call
  \<^verbatim>\<open>targetServer.Address()\<close> reads \<^verbatim>\<open>s.addr\<close> through nil and panics. The
  result is \<open>None\<close> when the selector never returns.
\<close>

definition serveProxy ::
  "(nat \<Rightarrow> nat) \<Rightarrow> (url option \<Rightarrow> Request \<Rightarrow> proxy_run) \<Rightarrow> dispatcher_state
     \<Rightarrow> http_ResponseWriter \<Rightarrow> Request
     \<Rightarrow> (outcome \<times> dispatcher_state \<times> http_ResponseWriter) option" where
  "serveProxy rnd forward \<sigma> rw req =
     (case getNextAvailableSever rnd (lb \<sigma>) (sel \<sigma>) of
        None \<Rightarrow> None
      | Some (Inl p, st') \<Rightarrow> Some (Panicked p, \<sigma>\<lparr>sel := st'\<rparr>, rw)
      | Some (Inr targetServer, st') \<Rightarrow>
          (let \<sigma>1 = \<sigma>\<lparr>sel := st'\<rparr> in
           case targetServer of
             NilServer \<Rightarrow>
               Some (Returned, \<sigma>1, http_Error rw ''Service unavailable'' StatusServiceUnavailable)
           | SimpleServerPtr None \<Rightarrow> Some (Panicked NilPointerDereference, \<sigma>1, rw)
           | SimpleServerPtr (Some i) \<Rightarrow>
               (let lrw = \<lparr>ResponseWriter = rw, statusCode = StatusOK\<rparr>;
                    targetAddr = Address (servers (lb \<sigma>1) ! i);
                    (p, s', lrw') = Serve forward (servers (lb \<sigma>1) ! i) lrw req;
                    \<sigma>2 = \<sigma>1\<lparr>lb := (lb \<sigma>1)\<lparr>servers := (servers (lb \<sigma>1))[i := s']\<rparr>\<rparr>
                in case p of
                     Some e \<Rightarrow> Some (Panicked e, \<sigma>2, ResponseWriter lrw')
                   | None \<Rightarrow>
                       Some (Returned,
                         \<sigma>2\<lparr>request_logs := request_logs \<sigma>2 @
                                [(RemoteAddr req, Path req, targetAddr, statusCode lrw')],
                             requests_total := requests_total \<sigma>2 @
                                [(targetAddr, algorithm (lb \<sigma>2), statusCode lrw')]\<rparr>,
                         ResponseWriter lrw'))))"

section \<open>Concurrent requests on one backend\<close>

text \<open>
  Every request runs \<^verbatim>\<open>Serve\<close> in its own goroutine. A goroutine has not
  yet called \<^verbatim>\<open>increment\<close>, or is inside the proxy call, or has left
  \<^verbatim>\<open>Serve\<close> through the deferred \<^verbatim>\<open>decrement\<close> (after a return or a panic
  of the proxy call). Both counter updates are atomic, so a run of the system
  is an interleaving: a schedule names the goroutine that takes its next step.
  \<open>recordStarts\<close> and \<open>recordEnds\<close> count the calls of \<^verbatim>\<open>increment\<close> and
  \<^verbatim>\<open>decrement\<close> made so far.
\<close>

datatype pc = NotStarted | Forwarding | Finished

record serve_system =
  target :: simpleServer
  goroutines :: "pc list"
  recordStarts :: nat
  recordEnds :: nat

definition serve_step :: "serve_system \<Rightarrow> nat \<Rightarrow> serve_system" where
  "serve_step \<sigma> g =
     (if g < length (goroutines \<sigma>) then
        (case goroutines \<sigma> ! g of
           NotStarted \<Rightarrow>
             \<sigma>\<lparr>target := increment (target \<sigma>),
               goroutines := (goroutines \<sigma>)[g := Forwarding],
               recordStarts := Suc (recordStarts \<sigma>)\<rparr>
         | Forwarding \<Rightarrow>
             \<sigma>\<lparr>target := decrement (target \<sigma>),
               goroutines := (goroutines \<sigma>)[g := Finished],
               recordEnds := Suc (recordEnds \<sigma>)\<rparr>
         | Finished \<Rightarrow> \<sigma>)
      else \<sigma>)"

definition serve_init :: "simpleServer \<Rightarrow> nat \<Rightarrow> serve_system" where
  "serve_init s n =
     \<lparr>target = s, goroutines = replicate n NotStarted, recordStarts = 0, recordEnds = 0\<rparr>"

definition run_schedule :: "serve_system \<Rightarrow> nat list \<Rightarrow> serve_system" where
  "run_schedule \<sigma> sched = foldl serve_step \<sigma> sched"

text \<open>
  The state in which \<^verbatim>\<open>main\<close> starts serving: the balancer built by
  \<^verbatim>\<open>newLoadBalancer\<close>, the counter \<^verbatim>\<open>rrCounter\<close> at its zero value, no
  draw made, nothing logged.
\<close>

definition initial_state :: "simpleServer list \<Rightarrow> string \<Rightarrow> string \<Rightarrow> dispatcher_state" where
  "initial_state pool p algo =
     \<lparr>lb = newLoadBalancer pool p algo,
      sel = \<lparr>rrCounter = 0, draws = 0\<rparr>,
      request_logs = [],
      requests_total = []\<rparr>"

text \<open>
  A stand-in for \<^verbatim>\<open>url.Parse\<close> in examples. It knows one of the parser's
  rules: an address that begins with a colon has no scheme and is rejected.
\<close>

definition example_parse :: "string \<Rightarrow> string + url" where
  "example_parse a =
     (case a of
        CHR '':'' # _ \<Rightarrow> Inl ''missing protocol scheme''
      | _ \<Rightarrow> Inr a)"

text \<open>The status codes among the calls a handler makes on its writer.\<close>

fun header_codes :: "writer_call list \<Rightarrow> int list" where
  "header_codes [] = []"
| "header_codes (CallWriteHeader code # cs) = code # header_codes cs"
| "header_codes (CallWrite b # cs) = header_codes cs"

text \<open>
  A stand-in for the proxy in examples: the backend answers the path \<open>/\<close>
  with a body and no explicit status, and every other path with 404.
\<close>

definition example_forward :: "url option \<Rightarrow> Request \<Rightarrow> proxy_run" where
  "example_forward u req =
     (if Path req = ''/'' then \<lparr>calls = [CallWrite ''hello''], panics = False\<rparr>
      else \<lparr>calls = [CallWriteHeader 404, CallWrite ''not found''], panics = False\<rparr>)"

text \<open>
  The invariant of the concurrent system: the calls of \<^verbatim>\<open>increment\<close> made
  are those of the goroutines that have started, the calls of \<^verbatim>\<open>decrement\<close>
  those of the goroutines that have finished, and the counter holds the number
  of goroutines inside the proxy call (as an \<^verbatim>\<open>int32\<close>).
\<close>

definition serve_inv :: "serve_system \<Rightarrow> bool" where
  "serve_inv \<sigma> \<longleftrightarrow>
     recordStarts \<sigma> = recordEnds \<sigma> + count_list (goroutines \<sigma>) Forwarding
     \<and> recordEnds \<sigma> = count_list (goroutines \<sigma>) Finished
     \<and> activeConns (target \<sigma>) = word_of_nat (count_list (goroutines \<sigma>) Forwarding)"

text \<open>
  The reading of "a success status" in the health rule of the specification:
  the successful class of HTTP status codes, 200 to 299. It is the
  specification the probe's test is compared with.
\<close>

definition spec_success_status :: "int \<Rightarrow> bool" where
  "spec_success_status c \<longleftrightarrow> 200 \<le> c \<and> c \<le> 299"

section \<open>Selection: properties\<close>

subsection \<open>Arithmetic of the cursor\<close>

lemma smod_nonneg: "0 \<le> a \<Longrightarrow> 0 < b \<Longrightarrow> (a::int) smod b = a mod b"
  by (cases "a = 0") (simp_all add: signed_modulo_int_def)

lemma sint_of_nat_small: "n < 2 ^ 31 \<Longrightarrow> sint (word_of_nat n :: int32) = int n"
  by (simp add: signed_of_nat signed_take_bit_int_eq_self)

lemma of_nat_ne0: "0 < n \<Longrightarrow> n < 2 ^ 31 \<Longrightarrow> (word_of_nat n :: int32) \<noteq> 0"
  by (metis sint_of_nat_small sint_0 of_nat_0_less_iff less_irrefl)

lemma upt_3: "[0..<3] = [0, 1, 2]"
  by code_simp

subsection \<open>Round robin\<close>

text \<open>
  With a start index that is not negative the loop is the circular scan: it
  returns the first alive backend met, and the nil interface after a full
  scan without one.
\<close>

lemma rr_scan_find:
  assumes "0 \<le> start" "pool \<noteq> []"
  shows "rr_scan pool start is =
     (case find (\<lambda>i. isAlive (pool ! ((nat start + i) mod length pool))) is of
        None \<Rightarrow> Inr NilServer
      | Some i \<Rightarrow> Inr (SimpleServerPtr (Some ((nat start + i) mod length pool))))"
proof (induction "is")
  case Nil
  show ?case by simp
next
  case (Cons i rest)
  have pos: "0 < int (length pool)"
    using assms(2) by simp
  have "(start + int i) smod int (length pool) = (start + int i) mod int (length pool)"
    using assms(1) pos by (intro smod_nonneg) simp_all
  also have "\<dots> = int ((nat start + i) mod length pool)"
    using assms(1) by (simp add: zmod_int)
  finally have idx:
    "(start + int i) smod int (length pool) = int ((nat start + i) mod length pool)" .
  have "(nat start + i) mod length pool < length pool"
    using assms(2) by simp
  with Cons idx show ?case
    by (simp add: Let_def)
qed

text \<open>
  As long as the advanced counter is not negative (and the pool has fewer than
  \<open>2^31\<close> backends), one selection advances the counter by one and returns
  what the specified scan returns from \<open>cursor mod poolSize\<close>.
\<close>

lemma getNextRoundRobinServer_in_range:
  assumes ne: "pool \<noteq> []" and len: "length pool < 2 ^ 31" and nonneg: "0 \<le> sint (rr + 1)"
  shows "getNextRoundRobinServer pool rr =
     ((case spec_round_robin pool (nat (sint (rr + 1))) of
         None \<Rightarrow> Inr NilServer
       | Some j \<Rightarrow> Inr (SimpleServerPtr (Some j))), rr + 1)"
proof -
  let ?n = "length pool"
  have n0: "0 < ?n" using ne by simp
  have t32: "sint (word_of_nat ?n :: int32) = int ?n"
    using len by (rule sint_of_nat_small)
  have nz: "(word_of_nat ?n :: int32) \<noteq> 0"
    using n0 len by (rule of_nat_ne0)
  have start: "sint (rr + 1) smod int ?n = int (nat (sint (rr + 1)) mod ?n)"
    using nonneg n0 by (simp add: smod_nonneg zmod_int)
  show ?thesis
    using ne n0 nz
    by (simp add: getNextRoundRobinServer_def Let_def t32 start rr_scan_find
        spec_round_robin_def split: option.split)
qed

lemma spec_round_robin_alive:
  "spec_round_robin pool c = Some j \<Longrightarrow> pool \<noteq> [] \<Longrightarrow> j < length pool \<and> isAlive (pool ! j)"
  by (auto simp: spec_round_robin_def find_Some_iff)

lemma spec_round_robin_none:
  assumes "pool \<noteq> []"
  shows "spec_round_robin pool c = None \<longleftrightarrow> (\<forall>s\<in>set pool. \<not> isAlive s)"
proof
  assume none: "spec_round_robin pool c = None"
  show "\<forall>s\<in>set pool. \<not> isAlive s"
  proof
    fix s assume "s \<in> set pool"
    then obtain j where j: "j < length pool" "pool ! j = s"
      by (auto simp: in_set_conv_nth)
    let ?n = "length pool"
    let ?i = "(j + ?n - c mod ?n) mod ?n"
    have cn: "c mod ?n < ?n" using assms by simp
    have "(c mod ?n + ?i) mod ?n = (c mod ?n + (j + ?n - c mod ?n)) mod ?n"
      by (simp add: mod_add_right_eq)
    also have "\<dots> = (j + ?n) mod ?n"
      using cn by simp
    also have "\<dots> = j"
      using j(1) by simp
    finally have around: "(c mod ?n + ?i) mod ?n = j" .
    have "?i \<in> set [0..<?n]" using assms by simp
    moreover from none have "\<forall>i\<in>set [0..<?n]. \<not> isAlive (pool ! ((c mod ?n + i) mod ?n))"
      by (simp add: spec_round_robin_def find_None_iff)
    ultimately have "\<not> isAlive (pool ! ((c mod ?n + ?i) mod ?n))"
      by blast
    with around j(2) show "\<not> isAlive s" by simp
  qed
next
  assume dead: "\<forall>s\<in>set pool. \<not> isAlive s"
  have "\<And>i. (c mod length pool + i) mod length pool < length pool"
    using assms by simp
  with dead show "spec_round_robin pool c = None"
    by (simp add: spec_round_robin_def find_None_iff)
qed

lemma rr_calls_numeral:
  "rr_calls pool rr (numeral n) =
     (let (r, rr') = getNextRoundRobinServer pool rr in r # rr_calls pool rr' (pred_numeral n))"
  by (simp add: numeral_eq_Suc)

lemma rr3:
  assumes "isAlive A" "isAlive B" "isAlive C"
  shows "getNextRoundRobinServer [A, B, C] 0 = (Inr (SimpleServerPtr (Some 1)), 1)"
    and "getNextRoundRobinServer [A, B, C] 1 = (Inr (SimpleServerPtr (Some 2)), 2)"
    and "getNextRoundRobinServer [A, B, C] 2 = (Inr (SimpleServerPtr (Some 0)), 3)"
    and "getNextRoundRobinServer [A, B, C] 3 = (Inr (SimpleServerPtr (Some 1)), 4)"
    and "getNextRoundRobinServer [A, B, C] 4 = (Inr (SimpleServerPtr (Some 2)), 5)"
    and "getNextRoundRobinServer [A, B, C] 5 = (Inr (SimpleServerPtr (Some 0)), 6)"
  using assms by (simp_all add: getNextRoundRobinServer_def upt_3 signed_modulo_int_def)

text \<open>
  C3, as the code has it. For a pool \<open>[A, B, C]\<close> of alive backends and the
  counter at 0, six sequential round-robin selections return B, C, A, B, C, A
  (the pool positions 1, 2, 0, 1, 2, 0): the counter is advanced before it is
  used, so the first selection starts at position 1.
\<close>

theorem round_robin_ABC_sequence:
  assumes "isAlive A" "isAlive B" "isAlive C"
  shows "rr_calls [A, B, C] 0 6 = map (\<lambda>i. Inr (SimpleServerPtr (Some i))) [1, 2, 0, 1, 2, 0]"
  by (simp add: rr_calls_numeral rr3 [OF assms])

theorem round_robin_ABC_sequence_witness:
  "isAlive (backend ''A'' 0 True) \<and> isAlive (backend ''B'' 0 True) \<and> isAlive (backend ''C'' 0 True)
   \<and> rr_calls [backend ''A'' 0 True, backend ''B'' 0 True, backend ''C'' 0 True] 0 6 =
       map (\<lambda>i. Inr (SimpleServerPtr (Some i))) [1, 2, 0, 1, 2, 0]"
proof -
  have a: "isAlive (backend ''A'' 0 True)" and b: "isAlive (backend ''B'' 0 True)"
    and c: "isAlive (backend ''C'' 0 True)"
    by (simp_all add: isAlive_def backend_def)
  from round_robin_ABC_sequence [OF a b c] a b c show ?thesis
    by simp
qed

text \<open>
  C3, as the claim states it: the sequence A, B, C, A, B, C (positions
  0, 1, 2, 0, 1, 2) is not what the selector returns on the scenario's pool.
\<close>

theorem round_robin_ABC_counterexample:
  "rr_calls pool_ABC 0 6 \<noteq> map (\<lambda>i. Inr (SimpleServerPtr (Some i))) [0, 1, 2, 0, 1, 2]"
  by code_simp

text \<open>
  C4, at the input where the code leaves the claim. When the counter stands at
  \<open>2147483647\<close> (after \<open>2^31 - 1\<close> selections) the next selection on the pool
  \<open>[A, B, C]\<close> of alive backends wraps it to \<open>-2147483648\<close>; the remainder is
  \<open>-2\<close>, the first index computed is \<open>-2\<close>, and the slice access panics
  instead of returning the first alive backend.
\<close>

theorem round_robin_negative_cursor_panics:
  "getNextRoundRobinServer pool_ABC 2147483647 = (Inl (IndexOutOfRange (- 2)), - 2147483648)"
  by code_simp

text \<open>The counter does reach that value: every selection on a pool adds one to it.\<close>

lemma getNextRoundRobinServer_counter:
  "pool \<noteq> [] \<Longrightarrow> snd (getNextRoundRobinServer pool rr) = rr + 1"
  by (simp add: getNextRoundRobinServer_def Let_def)

subsection \<open>Least connections\<close>

lemma min_init: "sint (drop_bit 1 (NOT 0) :: int32) = 2147483647"
  by code_simp

text \<open>
  What the scan returns, for any starting position, pointer and minimum:
  either the pointer it was given, when no alive backend of the rest is below
  the minimum, or the first alive backend of the rest whose count is the
  least among the alive ones and below the minimum.
\<close>

lemma lc_scan_cases:
  "(lc_scan rest i selected m = selected
      \<and> (\<forall>s\<in>set rest. isAlive s \<longrightarrow> sint m \<le> sint (getActiveConns s)))
   \<or> (\<exists>j<length rest. lc_scan rest i selected m = Some (i + j) \<and> isAlive (rest ! j)
        \<and> sint (getActiveConns (rest ! j)) < sint m
        \<and> (\<forall>k<length rest. isAlive (rest ! k) \<longrightarrow>
              sint (getActiveConns (rest ! j)) \<le> sint (getActiveConns (rest ! k)))
        \<and> (\<forall>k<j. isAlive (rest ! k) \<longrightarrow>
              sint (getActiveConns (rest ! j)) < sint (getActiveConns (rest ! k))))"
proof (induction rest arbitrary: i selected m)
  case Nil
  show ?case by simp
next
  case (Cons srv rest)
  let ?c = "getActiveConns srv"
  show ?case
  proof (cases "isAlive srv \<and> sint ?c < sint m")
    case True
    then have step: "lc_scan (srv # rest) i selected m = lc_scan rest (Suc i) (Some i) ?c"
      by (simp add: Let_def)
    from Cons [of "Suc i" "Some i" ?c] show ?thesis
    proof (elim disjE exE conjE)
      assume a: "lc_scan rest (Suc i) (Some i) ?c = Some i"
        and b: "\<forall>s\<in>set rest. isAlive s \<longrightarrow> sint ?c \<le> sint (getActiveConns s)"
      have "\<forall>k<length (srv # rest). isAlive ((srv # rest) ! k) \<longrightarrow>
              sint ?c \<le> sint (getActiveConns ((srv # rest) ! k))"
        using b by (auto simp: nth_Cons')
      with a True step show ?thesis
        by (intro disjI2 exI [of _ 0]) simp
    next
      fix j
      assume j: "j < length rest"
        and a: "lc_scan rest (Suc i) (Some i) ?c = Some (Suc i + j)"
        and al: "isAlive (rest ! j)"
        and lt: "sint (getActiveConns (rest ! j)) < sint ?c"
        and mn: "\<forall>k<length rest. isAlive (rest ! k) \<longrightarrow>
              sint (getActiveConns (rest ! j)) \<le> sint (getActiveConns (rest ! k))"
        and fs: "\<forall>k<j. isAlive (rest ! k) \<longrightarrow>
              sint (getActiveConns (rest ! j)) < sint (getActiveConns (rest ! k))"
      have 1: "\<forall>k<length (srv # rest). isAlive ((srv # rest) ! k) \<longrightarrow>
              sint (getActiveConns (rest ! j)) \<le> sint (getActiveConns ((srv # rest) ! k))"
        using mn lt by (auto simp: nth_Cons')
      have 2: "\<forall>k<Suc j. isAlive ((srv # rest) ! k) \<longrightarrow>
              sint (getActiveConns (rest ! j)) < sint (getActiveConns ((srv # rest) ! k))"
        using fs lt by (auto simp: nth_Cons' less_Suc_eq_0_disj)
      from j a al lt True step 1 2 show ?thesis
        by (intro disjI2 exI [of _ "Suc j"]) simp
    qed
  next
    case False
    then have step: "lc_scan (srv # rest) i selected m = lc_scan rest (Suc i) selected m"
      by (auto simp: Let_def)
    from Cons [of "Suc i" selected m] show ?thesis
    proof (elim disjE exE conjE)
      assume a: "lc_scan rest (Suc i) selected m = selected"
        and b: "\<forall>s\<in>set rest. isAlive s \<longrightarrow> sint m \<le> sint (getActiveConns s)"
      with False step show ?thesis
        by (intro disjI1) auto
    next
      fix j
      assume j: "j < length rest"
        and a: "lc_scan rest (Suc i) selected m = Some (Suc i + j)"
        and al: "isAlive (rest ! j)"
        and lt: "sint (getActiveConns (rest ! j)) < sint m"
        and mn: "\<forall>k<length rest. isAlive (rest ! k) \<longrightarrow>
              sint (getActiveConns (rest ! j)) \<le> sint (getActiveConns (rest ! k))"
        and fs: "\<forall>k<j. isAlive (rest ! k) \<longrightarrow>
              sint (getActiveConns (rest ! j)) < sint (getActiveConns (rest ! k))"
      have 1: "\<forall>k<length (srv # rest). isAlive ((srv # rest) ! k) \<longrightarrow>
              sint (getActiveConns (rest ! j)) \<le> sint (getActiveConns ((srv # rest) ! k))"
        using mn lt False by (auto simp: nth_Cons')
      have 2: "\<forall>k<Suc j. isAlive ((srv # rest) ! k) \<longrightarrow>
              sint (getActiveConns (rest ! j)) < sint (getActiveConns ((srv # rest) ! k))"
        using fs lt False by (auto simp: nth_Cons' less_Suc_eq_0_disj)
      from j a al lt step 1 2 show ?thesis
        by (intro disjI2 exI [of _ "Suc j"]) simp
    qed
  qed
qed

text \<open>
  The selection among alive backends: when some alive backend has fewer than
  \<open>2147483647\<close> active connections, the selector returns an alive backend
  whose count is minimal among the alive ones, and the first such in pool
  order.
\<close>

lemma getLeastConnServer_minimal:
  assumes "\<exists>s\<in>set pool. isAlive s \<and> sint (getActiveConns s) < 2147483647"
  shows "\<exists>j<length pool. getLeastConnServer pool = Inr (SimpleServerPtr (Some j))
      \<and> isAlive (pool ! j)
      \<and> (\<forall>k<length pool. isAlive (pool ! k) \<longrightarrow>
            sint (getActiveConns (pool ! j)) \<le> sint (getActiveConns (pool ! k)))
      \<and> (\<forall>k<j. isAlive (pool ! k) \<longrightarrow>
            sint (getActiveConns (pool ! j)) < sint (getActiveConns (pool ! k)))"
proof -
  let ?m = "drop_bit 1 (NOT 0) :: int32"
  from assms have "\<not> (\<forall>s\<in>set pool. isAlive s \<longrightarrow> sint ?m \<le> sint (getActiveConns s))"
    by (auto simp only: min_init)
  with lc_scan_cases [of pool 0 None ?m] show ?thesis
    by (auto simp: getLeastConnServer_def)
qed

lemma least_conn_scenario: "getLeastConnServer pool_conns = Inr (SimpleServerPtr (Some 1))"
  by code_simp

text \<open>With no alive backend the variable \<^verbatim>\<open>selected\<close> is still nil at the end.\<close>

lemma getLeastConnServer_no_alive:
  assumes "\<forall>s\<in>set pool. \<not> isAlive s"
  shows "getLeastConnServer pool = Inr (SimpleServerPtr None)"
proof -
  from assms lc_scan_cases [of pool 0 None "drop_bit 1 (NOT 0)"]
  have "lc_scan pool 0 None (drop_bit 1 (NOT 0)) = None"
    by auto
  then show ?thesis
    by (simp add: getLeastConnServer_def)
qed

text \<open>
  C5, at the input where the code leaves the claim. For the pool of two dead
  backends the least-connections selector does not return NONE, the nil
  interface that \<^verbatim>\<open>serveProxy\<close> tests for: it returns a \<^verbatim>\<open>Server\<close> that
  wraps the nil pointer, and the request that \<^verbatim>\<open>serveProxy\<close> dispatches with
  it ends in a nil dereference instead of the 503 answer.
\<close>

theorem least_conn_no_alive_wrapped_nil:
  "getLeastConnServer pool_dead = Inr (SimpleServerPtr None)
   \<and> getLeastConnServer pool_dead \<noteq> Inr NilServer
   \<and> serveProxy rnd forward (initial_state pool_dead p ''leastconn'') rw req =
       Some (Panicked NilPointerDereference, initial_state pool_dead p ''leastconn'', rw)"
proof -
  have "\<forall>s\<in>set pool_dead. \<not> isAlive s"
    by (simp add: pool_dead_def backend_def isAlive_def)
  then have sel: "getLeastConnServer pool_dead = Inr (SimpleServerPtr None)"
    by (rule getLeastConnServer_no_alive)
  then show ?thesis
    by (simp add: serveProxy_def getNextAvailableSever_def initial_state_def newLoadBalancer_def)
qed

subsection \<open>Random\<close>

lemma getRandomServer_returns:
  assumes "getRandomServer pool rnd k = Some y"
  shows "pool = [] \<or> (\<exists>s\<in>set pool. isAlive s)"
  using assms
proof (induction rule: getRandomServer.raw_induct [rotated 1, consumes 1])
  case (1 f pool rnd k y)
  show ?case
  proof (cases "pool = [] \<or> isAlive (pool ! (rnd k mod length pool))")
    case True
    then show ?thesis
      by (metis length_greater_0_conv mod_less_divisor nth_mem)
  next
    case False
    with 1(2) have "f pool rnd (Suc k) = Some y"
      by (simp add: Let_def)
    then show ?thesis
      by (rule 1(1))
  qed
qed

text \<open>On a pool without an alive backend the loop has no exit.\<close>

lemma getRandomServer_no_alive:
  assumes "pool \<noteq> []" and "\<forall>s\<in>set pool. \<not> isAlive s"
  shows "getRandomServer pool rnd k = None"
proof (cases "getRandomServer pool rnd k")
  case None
  then show ?thesis .
next
  case (Some y)
  from getRandomServer_returns [OF this] assms show ?thesis
    by blast
qed

text \<open>What it returns, when it returns a backend, is an alive backend of the pool.\<close>

lemma getRandomServer_alive_aux:
  assumes "getRandomServer pool rnd k = Some y"
  shows "\<forall>j k'. y = (Inr (SimpleServerPtr (Some j)), k') \<longrightarrow> j < length pool \<and> isAlive (pool ! j)"
  using assms
proof (induction rule: getRandomServer.raw_induct [rotated 1, consumes 1])
  case (1 f pool rnd k y)
  show ?case
  proof (cases "pool = []")
    case True
    with 1(2) show ?thesis by auto
  next
    case ne: False
    show ?thesis
    proof (cases "isAlive (pool ! (rnd k mod length pool))")
      case True
      with ne 1(2) show ?thesis by (auto simp: Let_def)
    next
      case False
      with ne 1(2) have "f pool rnd (Suc k) = Some y"
        by (simp add: Let_def)
      then show ?thesis
        by (rule 1(1))
    qed
  qed
qed

lemma getRandomServer_alive:
  assumes "getRandomServer pool rnd k = Some (Inr (SimpleServerPtr (Some j)), k')"
  shows "j < length pool \<and> isAlive (pool ! j)"
  using getRandomServer_alive_aux [OF assms] by simp

lemma getRandomServer_empty: "getRandomServer [] rnd k = Some (Inl InvalidArgumentToIntn, k)"
  by (subst getRandomServer.simps) simp

text \<open>
  C1, at the input where the code leaves the claim. For the pool of two dead
  backends the random selector never returns, whatever the generator draws:
  it does not stop after pool-size attempts and it does not return NONE.
\<close>

theorem random_no_alive_never_returns:
  "getRandomServer pool_dead rnd k = None
   \<and> serveProxy rnd forward (initial_state pool_dead p ''random'') rw req = None"
proof -
  have "pool_dead \<noteq> []" and "\<forall>s\<in>set pool_dead. \<not> isAlive s"
    by (simp_all add: pool_dead_def backend_def isAlive_def)
  then have "getRandomServer pool_dead rnd k' = None" for k'
    by (rule getRandomServer_no_alive)
  then show ?thesis
    by (simp add: serveProxy_def getNextAvailableSever_def initial_state_def newLoadBalancer_def)
qed

subsection \<open>The empty pool\<close>

text \<open>
  C2, at the inputs where the code leaves the claim. On the empty pool only
  the round-robin selector returns NONE. The least-connections selector
  returns a \<^verbatim>\<open>Server\<close> that wraps the nil pointer, and the random selector,
  also when reached through the default branch, panics in \<^verbatim>\<open>rand.Intn(0)\<close>.
\<close>

theorem empty_pool_selection:
  "getNextAvailableSever rnd (newLoadBalancer [] p ''roundrobin'') st = Some (Inr NilServer, st)
   \<and> getNextAvailableSever rnd (newLoadBalancer [] p ''leastconn'') st =
       Some (Inr (SimpleServerPtr None), st)
   \<and> getNextAvailableSever rnd (newLoadBalancer [] p ''random'') st =
       Some (Inl InvalidArgumentToIntn, st)
   \<and> getNextAvailableSever rnd (newLoadBalancer [] p ''weighted'') st =
       Some (Inl InvalidArgumentToIntn, st)"
  by (simp add: getNextAvailableSever_def newLoadBalancer_def getNextRoundRobinServer_def
      getLeastConnServer_def getRandomServer_empty)

section \<open>Construction and liveness: properties\<close>

lemma initialiseServer_alive: "isAlive (snd (initialiseServer parse a))"
  by (simp add: initialiseServer_def isAlive_def split: sum.split)

lemma main_servers_snd:
  "snd (main_servers parse addrs) = map (\<lambda>a. snd (initialiseServer parse a)) addrs"
  by (induction addrs) (simp_all add: split_beta)

lemma checkHealth_alive: "isAlive (fst (checkHealth p s)) \<longleftrightarrow> p = ProbeResponse StatusOK"
  by (cases p) (simp_all add: checkHealth_def isAlive_def)

text \<open>A probe changes nothing but the liveness flag of its own backend.\<close>

lemma checkHealth_frame:
  "fst (checkHealth p s) = s\<lparr>alive := (p = ProbeResponse StatusOK)\<rparr>"
  by (cases p) (simp_all add: checkHealth_def)

lemma health_round_nth:
  "length ps = length pool \<Longrightarrow> i < length pool \<Longrightarrow>
     health_round ps pool ! i = fst (checkHealth (ps ! i) (pool ! i))"
proof (induction ps pool arbitrary: i rule: health_round.induct)
  case (1 p ps s ss)
  then show ?case by (cases i) simp_all
qed simp_all

text \<open>
  C9, as the code has it. Every backend that \<^verbatim>\<open>main\<close> constructs is alive
  before any probe has run. After a health-check round a backend is alive if
  and only if its probe came back, within the client's timeout and without
  error, with the status 200 (\<^verbatim>\<open>http.StatusOK\<close>); a probe error, a timeout
  and every other status, also another status of the successful class such as
  204, leave it dead.
\<close>

theorem liveness_initial_and_after_round:
  "(\<forall>s\<in>set (snd (main_servers parse addrs)). isAlive s)
   \<and> (length ps = length pool \<longrightarrow>
        (\<forall>i<length pool. isAlive (health_round ps pool ! i) \<longleftrightarrow> ps ! i = ProbeResponse StatusOK))"
  by (simp add: main_servers_snd initialiseServer_alive health_round_nth checkHealth_alive)

theorem liveness_initial_and_after_round_witness:
  "length [ProbeResponse 200, ProbeError, ProbeResponse 500] = length pool_ABC
   \<and> isAlive (hd (snd (main_servers example_parse [''http://localhost:9000''])))
   \<and> isAlive (health_round [ProbeResponse 200, ProbeError, ProbeResponse 500] pool_ABC ! 0)
   \<and> \<not> isAlive (health_round [ProbeResponse 200, ProbeError, ProbeResponse 500] pool_ABC ! 1)
   \<and> \<not> isAlive (health_round [ProbeResponse 200, ProbeError, ProbeResponse 500] pool_ABC ! 2)"
proof -
  let ?ps = "[ProbeResponse 200, ProbeError, ProbeResponse 500]"
  have len: "length ?ps = length pool_ABC"
    by (simp add: pool_ABC_def)
  note inst = liveness_initial_and_after_round [of example_parse "[''http://localhost:9000'']" ?ps pool_ABC]
  from inst have init: "isAlive (hd (snd (main_servers example_parse [''http://localhost:9000''])))"
    by (simp add: split_beta)
  from inst len have round:
    "\<forall>i<length pool_ABC. isAlive (health_round ?ps pool_ABC ! i) \<longleftrightarrow> ?ps ! i = ProbeResponse StatusOK"
    by blast
  have l3: "length pool_ABC = 3"
    by (simp add: pool_ABC_def)
  from round l3 have "isAlive (health_round ?ps pool_ABC ! 0) \<longleftrightarrow> ?ps ! 0 = ProbeResponse StatusOK"
    and "isAlive (health_round ?ps pool_ABC ! 1) \<longleftrightarrow> ?ps ! 1 = ProbeResponse StatusOK"
    and "isAlive (health_round ?ps pool_ABC ! 2) \<longleftrightarrow> ?ps ! 2 = ProbeResponse StatusOK"
    by simp_all
  with len init show ?thesis
    by (simp add: StatusOK_def)
qed

text \<open>
  C9, as the claim states it: 204 is a success status, the probe that returns
  it completed without error, and the backend, alive before, is dead after
  the probe.
\<close>

theorem liveness_success_status_counterexample:
  "spec_success_status 204
   \<and> isAlive (backend ''A'' 0 True)
   \<and> \<not> isAlive (fst (checkHealth (ProbeResponse 204) (backend ''A'' 0 True)))
   \<and> \<not> isAlive (health_round [ProbeResponse 204, ProbeResponse 200, ProbeResponse 200] pool_ABC ! 0)"
  by (simp add: spec_success_status_def checkHealth_def StatusOK_def isAlive_def backend_def
      pool_ABC_def)

text \<open>
  C8, at the input where the code leaves the claim. When \<^verbatim>\<open>url.Parse\<close>
  rejects the address, \<^verbatim>\<open>initialiseServer\<close> prints the error and goes on: it
  returns a backend with that address, a proxy built from the nil URL and the
  liveness flag set, and \<^verbatim>\<open>main\<close> puts it in the pool. The sibling
  constructor \<^verbatim>\<open>NewLoadBalancer\<close> fails with the error on the same address.
\<close>

theorem initialiseServer_accepts_malformed:
  assumes "parse a = Inl e"
  shows "initialiseServer parse a =
           ([e], \<lparr>addr = a, proxy = None, activeConns = 0, alive = True, requests = 0\<rparr>)
    \<and> snd (main_servers parse [a]) =
           [\<lparr>addr = a, proxy = None, activeConns = 0, alive = True, requests = 0\<rparr>]
    \<and> NewLoadBalancer parse [a] = Inl e"
  using assms by (simp add: initialiseServer_def handleErr_def NewLoadBalancer_def)

theorem initialiseServer_accepts_malformed_witness:
  "example_parse '':9000'' = Inl ''missing protocol scheme''
   \<and> initialiseServer example_parse '':9000'' =
      ([''missing protocol scheme''],
       \<lparr>addr = '':9000'', proxy = None, activeConns = 0, alive = True, requests = 0\<rparr>)
   \<and> snd (main_servers example_parse ['':9000'']) =
      [\<lparr>addr = '':9000'', proxy = None, activeConns = 0, alive = True, requests = 0\<rparr>]
   \<and> NewLoadBalancer example_parse ['':9000''] = Inl ''missing protocol scheme''"
proof -
  have h: "example_parse '':9000'' = Inl ''missing protocol scheme''"
    by (simp add: example_parse_def)
  from initialiseServer_accepts_malformed [of example_parse "'':9000''" "''missing protocol scheme''", OF h] h show ?thesis
    by simp
qed

section \<open>Dispatch: properties\<close>

lemma foldl_apply_call_codes:
  "codes (ResponseWriter (foldl apply_call lrw cs)) = codes (ResponseWriter lrw) @ header_codes cs"
proof (induction cs arbitrary: lrw)
  case Nil
  show ?case by simp
next
  case (Cons c cs)
  show ?case
    by (cases c) (simp_all add: Cons WriteHeader_def Write_def)
qed

lemma foldl_apply_call_status:
  "statusCode (foldl apply_call lrw cs) =
     (if header_codes cs = [] then statusCode lrw else last (header_codes cs))"
proof (induction cs arbitrary: lrw)
  case Nil
  show ?case by simp
next
  case (Cons c cs)
  show ?case
    by (cases c) (simp_all add: Cons WriteHeader_def Write_def)
qed

text \<open>
  \<^verbatim>\<open>Serve\<close> leaves the counter of active connections as it found it, on a
  return and on a panic of the proxy call alike, and counts one more request.
\<close>

lemma Serve_balanced:
  "activeConns (fst (snd (Serve forward s lrw req))) = activeConns s
   \<and> requests (fst (snd (Serve forward s lrw req))) = requests s + 1"
  by (simp add: Serve_def Let_def increment_def decrement_def)

lemma serveProxy_nil:
  assumes "getNextAvailableSever rnd (lb \<sigma>) (sel \<sigma>) = Some (Inr NilServer, st')"
  shows "serveProxy rnd forward \<sigma> rw req =
     Some (Returned, \<sigma>\<lparr>sel := st'\<rparr>,
           rw\<lparr>codes := codes rw @ [503],
              bodies := bodies rw @ [''Service unavailable'' @ [CHR 0x0A]]\<rparr>)"
  using assms by (simp add: serveProxy_def http_Error_def StatusServiceUnavailable_def)

lemma serveProxy_backend:
  assumes "getNextAvailableSever rnd (lb \<sigma>) (sel \<sigma>) = Some (Inr (SimpleServerPtr (Some i)), st')"
  shows "\<exists>out \<sigma>' rw'. serveProxy rnd forward \<sigma> rw req = Some (out, \<sigma>', rw')
      \<and> codes rw' = codes rw @ header_codes (calls (forward (proxy (servers (lb \<sigma>) ! i)) req))
      \<and> request_logs \<sigma>' = request_logs \<sigma> @
           (if panics (forward (proxy (servers (lb \<sigma>) ! i)) req) then []
            else [(RemoteAddr req, Path req, addr (servers (lb \<sigma>) ! i),
                   if header_codes (calls (forward (proxy (servers (lb \<sigma>) ! i)) req)) = [] then 200
                   else last (header_codes (calls (forward (proxy (servers (lb \<sigma>) ! i)) req))))])
      \<and> requests_total \<sigma>' = requests_total \<sigma> @
           (if panics (forward (proxy (servers (lb \<sigma>) ! i)) req) then []
            else [(addr (servers (lb \<sigma>) ! i), algorithm (lb \<sigma>),
                   if header_codes (calls (forward (proxy (servers (lb \<sigma>) ! i)) req)) = [] then 200
                   else last (header_codes (calls (forward (proxy (servers (lb \<sigma>) ! i)) req))))])"
  using assms
  by (simp add: serveProxy_def Serve_def Let_def increment_def Address_def StatusOK_def
      foldl_apply_call_codes foldl_apply_call_status)

text \<open>With a wrapped nil pointer \<^verbatim>\<open>serveProxy\<close> neither answers 503 nor forwards.\<close>

lemma serveProxy_wrapped_nil:
  assumes "getNextAvailableSever rnd (lb \<sigma>) (sel \<sigma>) = Some (Inr (SimpleServerPtr None), st')"
  shows "serveProxy rnd forward \<sigma> rw req = Some (Panicked NilPointerDereference, \<sigma>\<lparr>sel := st'\<rparr>, rw)"
  using assms by (simp add: serveProxy_def)

text \<open>
  On the nil \<^verbatim>\<open>Server\<close> the answer of \<^verbatim>\<open>serveProxy\<close> is the same whatever
  the proxy would do, and the backends are as they were.
\<close>

lemma serveProxy_nil_no_forward:
  assumes "getNextAvailableSever rnd (lb \<sigma>) (sel \<sigma>) = Some (Inr NilServer, st')"
  shows "serveProxy rnd forward' \<sigma> rw req = serveProxy rnd forward \<sigma> rw req"
  using assms by (simp add: serveProxy_nil)

text \<open>
  C7, at the input where the code leaves the claim. Under the
  least-connections algorithm with no alive backend, the selector has no
  backend to give, and \<^verbatim>\<open>serveProxy\<close> does not answer 503: it gets a
  \<^verbatim>\<open>Server\<close> that wraps the nil pointer, passes the test
  \<^verbatim>\<open>targetServer == nil\<close> and panics in \<^verbatim>\<open>targetServer.Address()\<close>. Nothing
  has been written to the client's writer, no status is passed through and
  nothing is reported.
\<close>

theorem serveProxy_least_conn_no_alive_panics:
  assumes "algorithm (lb \<sigma>) = ''leastconn''" and "\<forall>s\<in>set (servers (lb \<sigma>)). \<not> isAlive s"
  shows "serveProxy rnd forward \<sigma> rw req = Some (Panicked NilPointerDereference, \<sigma>, rw)
    \<and> serveProxy rnd forward \<sigma> rw req \<noteq>
        Some (Returned, \<sigma>, http_Error rw ''Service unavailable'' StatusServiceUnavailable)"
proof -
  from assms(2) have "getLeastConnServer (servers (lb \<sigma>)) = Inr (SimpleServerPtr None)"
    by (rule getLeastConnServer_no_alive)
  with assms(1) have "getNextAvailableSever rnd (lb \<sigma>) (sel \<sigma>) =
      Some (Inr (SimpleServerPtr None), sel \<sigma>)"
    by (simp add: getNextAvailableSever_def)
  from serveProxy_wrapped_nil [OF this, of forward rw req] show ?thesis
    by simp
qed

theorem serveProxy_least_conn_no_alive_panics_witness:
  "algorithm (lb (initial_state pool_dead ''8080'' ''leastconn'')) = ''leastconn''
   \<and> \<not> isAlive (pool_dead ! 0) \<and> \<not> isAlive (pool_dead ! 1)
   \<and> serveProxy id example_forward (initial_state pool_dead ''8080'' ''leastconn'')
        \<lparr>codes = [], bodies = []\<rparr> \<lparr>RemoteAddr = ''10.0.0.1:5000'', Path = ''/''\<rparr> =
       Some (Panicked NilPointerDereference, initial_state pool_dead ''8080'' ''leastconn'',
             \<lparr>codes = [], bodies = []\<rparr>)"
proof -
  let ?\<sigma> = "initial_state pool_dead ''8080'' ''leastconn''"
  have h1: "algorithm (lb ?\<sigma>) = ''leastconn''"
    by (simp add: initial_state_def newLoadBalancer_def)
  have dead: "\<not> isAlive (pool_dead ! 0)" "\<not> isAlive (pool_dead ! 1)"
    by (simp_all add: pool_dead_def backend_def isAlive_def)
  have h2: "\<forall>s\<in>set (servers (lb ?\<sigma>)). \<not> isAlive s"
    by (simp add: initial_state_def newLoadBalancer_def pool_dead_def backend_def isAlive_def)
  from serveProxy_least_conn_no_alive_panics
         [where forward = example_forward and rnd = id, OF h1 h2] h1 dead
  show ?thesis
    by simp
qed

lemma select_ABC_roundrobin:
  "getNextAvailableSever id (lb (initial_state pool_ABC ''8080'' ''roundrobin''))
      (sel (initial_state pool_ABC ''8080'' ''roundrobin'')) =
     Some (Inr (SimpleServerPtr (Some 1)), \<lparr>rrCounter = 1, draws = 0\<rparr>)"
  by code_simp

text \<open>
  C10. For a request dispatched to a backend whose handler never calls
  \<^verbatim>\<open>WriteHeader\<close>, the status code in the row written by \<^verbatim>\<open>logRequest\<close> and
  in the labels counted by \<^verbatim>\<open>requestsTotal\<close> is 200, the value the logging
  writer starts with. (When the proxy call panics, \<^verbatim>\<open>serveProxy\<close> reports
  nothing.)
\<close>

theorem serveProxy_default_status_200:
  assumes "getNextAvailableSever rnd (lb \<sigma>) (sel \<sigma>) = Some (Inr (SimpleServerPtr (Some i)), st')"
    and "header_codes (calls (forward (proxy (servers (lb \<sigma>) ! i)) req)) = []"
  shows "\<exists>out \<sigma>' rw'. serveProxy rnd forward \<sigma> rw req = Some (out, \<sigma>', rw')
      \<and> request_logs \<sigma>' = request_logs \<sigma> @
           (if panics (forward (proxy (servers (lb \<sigma>) ! i)) req) then []
            else [(RemoteAddr req, Path req, addr (servers (lb \<sigma>) ! i), 200)])
      \<and> requests_total \<sigma>' = requests_total \<sigma> @
           (if panics (forward (proxy (servers (lb \<sigma>) ! i)) req) then []
            else [(addr (servers (lb \<sigma>) ! i), algorithm (lb \<sigma>), 200)])"
  using serveProxy_backend [OF assms(1), of forward rw req] assms(2)
  by auto

lemma serve_ABC_root:
  "serveProxy id example_forward (initial_state pool_ABC ''8080'' ''roundrobin'')
      \<lparr>codes = [], bodies = []\<rparr> \<lparr>RemoteAddr = ''10.0.0.1:5000'', Path = ''/''\<rparr> =
     Some (Returned,
       \<lparr>lb = newLoadBalancer
               [backend ''A'' 0 True, (backend ''B'' 0 True)\<lparr>requests := 1\<rparr>, backend ''C'' 0 True]
               ''8080'' ''roundrobin'',
        sel = \<lparr>rrCounter = 1, draws = 0\<rparr>,
        request_logs = [(''10.0.0.1:5000'', ''/'', ''B'', 200)],
        requests_total = [(''B'', ''roundrobin'', 200)]\<rparr>,
       \<lparr>codes = [], bodies = [''hello'']\<rparr>)"
  by code_simp

theorem serveProxy_default_status_200_witness:
  "getNextAvailableSever id (lb (initial_state pool_ABC ''8080'' ''roundrobin''))
      (sel (initial_state pool_ABC ''8080'' ''roundrobin'')) =
     Some (Inr (SimpleServerPtr (Some 1)), \<lparr>rrCounter = 1, draws = 0\<rparr>)
   \<and> header_codes (calls (example_forward
         (proxy (servers (lb (initial_state pool_ABC ''8080'' ''roundrobin'')) ! 1))
         \<lparr>RemoteAddr = ''10.0.0.1:5000'', Path = ''/''\<rparr>)) = []
   \<and> request_logs
        \<lparr>lb = newLoadBalancer
                [backend ''A'' 0 True, (backend ''B'' 0 True)\<lparr>requests := 1\<rparr>, backend ''C'' 0 True]
                ''8080'' ''roundrobin'',
         sel = \<lparr>rrCounter = 1, draws = 0\<rparr>,
         request_logs = [(''10.0.0.1:5000'', ''/'', ''B'', 200)],
         requests_total = [(''B'', ''roundrobin'', 200)]\<rparr> =
       [(RemoteAddr \<lparr>RemoteAddr = ''10.0.0.1:5000'', Path = ''/''\<rparr>,
         Path \<lparr>RemoteAddr = ''10.0.0.1:5000'', Path = ''/''\<rparr>,
         addr (servers (lb (initial_state pool_ABC ''8080'' ''roundrobin'')) ! 1), 200)]"
proof -
  let ?abc = "initial_state pool_ABC ''8080'' ''roundrobin''"
  let ?rw = "\<lparr>codes = [], bodies = []\<rparr>"
  let ?req = "\<lparr>RemoteAddr = ''10.0.0.1:5000'', Path = ''/''\<rparr>"
  note h1 = select_ABC_roundrobin
  have h2: "header_codes (calls (example_forward (proxy (servers (lb ?abc) ! 1)) ?req)) = []"
    by (simp add: example_forward_def)
  have np: "\<not> panics (example_forward (proxy (servers (lb ?abc) ! 1)) ?req)"
    by (simp add: example_forward_def)
  from serveProxy_default_status_200 [where forward = example_forward and req = ?req and rw = ?rw, OF h1 h2]
  obtain out \<sigma>' rw' where run: "serveProxy id example_forward ?abc ?rw ?req = Some (out, \<sigma>', rw')"
    and logs: "request_logs \<sigma>' = request_logs ?abc @
           (if panics (example_forward (proxy (servers (lb ?abc) ! 1)) ?req) then []
            else [(RemoteAddr ?req, Path ?req, addr (servers (lb ?abc) ! 1), 200)])"
    by blast
  from logs np have "request_logs \<sigma>' = [(RemoteAddr ?req, Path ?req, addr (servers (lb ?abc) ! 1), 200)]"
    by (simp add: initial_state_def)
  moreover from run serve_ABC_root
  have "\<sigma>' = \<lparr>lb = newLoadBalancer
                [backend ''A'' 0 True, (backend ''B'' 0 True)\<lparr>requests := 1\<rparr>, backend ''C'' 0 True]
                ''8080'' ''roundrobin'',
         sel = \<lparr>rrCounter = 1, draws = 0\<rparr>,
         request_logs = [(''10.0.0.1:5000'', ''/'', ''B'', 200)],
         requests_total = [(''B'', ''roundrobin'', 200)]\<rparr>"
    by simp
  ultimately show ?thesis
    using h1 h2 by simp
qed

section \<open>Concurrent requests: properties\<close>

lemma count_list_nth_pos: "i < length xs \<Longrightarrow> 0 < count_list xs (xs ! i)"
  by (metis count_list_0_iff nth_mem not_gr_zero)

lemma count_list_update:
  "i < length xs \<Longrightarrow> xs ! i \<noteq> y \<Longrightarrow>
     count_list (xs[i := y]) z =
       (if z = y then Suc (count_list xs z)
        else if z = xs ! i then count_list xs z - 1 else count_list xs z)"
proof (induction xs arbitrary: i)
  case Nil
  then show ?case by simp
next
  case (Cons x xs)
  show ?case
  proof (cases i)
    case 0
    with Cons.prems show ?thesis by auto
  next
    case (Suc j)
    with Cons.prems have "j < length xs" "xs ! j \<noteq> y" by simp_all
    from Cons.IH [OF this] Suc count_list_nth_pos [OF \<open>j < length xs\<close>] show ?thesis
      by auto
  qed
qed

lemma serve_inv_step: "serve_inv \<sigma> \<Longrightarrow> serve_inv (serve_step \<sigma> g)"
proof (cases "g < length (goroutines \<sigma>)")
  case False
  assume "serve_inv \<sigma>"
  with False show ?thesis by (simp add: serve_step_def)
next
  case True
  assume inv: "serve_inv \<sigma>"
  show ?thesis
  proof (cases "goroutines \<sigma> ! g")
    case NotStarted
    with True inv show ?thesis
      by (simp add: serve_step_def serve_inv_def increment_def count_list_update)
  next
    case Forwarding
    from True have "0 < count_list (goroutines \<sigma>) (goroutines \<sigma> ! g)"
      by (rule count_list_nth_pos)
    with Forwarding have pos: "0 < count_list (goroutines \<sigma>) Forwarding" by simp
    then obtain k where k: "count_list (goroutines \<sigma>) Forwarding = Suc k"
      by (cases "count_list (goroutines \<sigma>) Forwarding") simp_all
    with True inv Forwarding show ?thesis
      by (simp add: serve_step_def serve_inv_def decrement_def count_list_update)
  next
    case Finished
    with True inv show ?thesis by (simp add: serve_step_def)
  qed
qed

lemma serve_inv_run: "serve_inv \<sigma> \<Longrightarrow> serve_inv (run_schedule \<sigma> sched)"
  unfolding run_schedule_def
  by (induction sched arbitrary: \<sigma>) (simp_all add: serve_inv_step)

lemma serve_inv_init: "activeConns s = 0 \<Longrightarrow> serve_inv (serve_init s n)"
  by (simp add: serve_inv_def serve_init_def)

lemma sint_in_flight: "k < 2 ^ 31 \<Longrightarrow> sint (word_of_nat k :: int32) = int k"
  by (simp add: signed_of_nat signed_take_bit_int_eq_self)

lemma length_goroutines_step: "length (goroutines (serve_step \<sigma> g)) = length (goroutines \<sigma>)"
  by (simp add: serve_step_def split: pc.split)

lemma length_goroutines_run:
  "length (goroutines (run_schedule \<sigma> sched)) = length (goroutines \<sigma>)"
  unfolding run_schedule_def
  by (induction sched arbitrary: \<sigma>) (simp_all add: length_goroutines_step)

text \<open>
  The requests in flight are among the requests made: a server that has
  fewer than \<open>2^31\<close> connections open has fewer than \<open>2^31\<close> in flight.
\<close>

lemma in_flight_le_requests:
  "count_list (goroutines (run_schedule (serve_init s n) sched)) Forwarding \<le> n"
proof -
  have "count_list (goroutines (run_schedule (serve_init s n) sched)) Forwarding
      \<le> length (goroutines (run_schedule (serve_init s n) sched))"
    by (rule count_le_length)
  also have "\<dots> = n"
    by (simp add: length_goroutines_run serve_init_def)
  finally show ?thesis .
qed

text \<open>
  C6. Start from a backend with no active connection and any number of
  requests, and let their goroutines run in any interleaving. The requests
  in flight on the backend are those of the inbound connections that are
  open, fewer than \<open>2^31\<close>. At every point: no more decrements than
  increments have been made; every started request has incremented once and
  every finished one has decremented once, whichever way its proxy call
  ended; ActiveConnections is the number of increments minus the number of
  decrements, and it is not negative. A single \<^verbatim>\<open>Serve\<close> restores the
  counter on a return and on a panic of the proxy call.
\<close>

theorem active_connections_are_starts_minus_ends:
  assumes "activeConns s = 0" and "\<sigma> = run_schedule (serve_init s n) sched"
    and "count_list (goroutines \<sigma>) Forwarding < 2 ^ 31"
  shows "recordEnds \<sigma> \<le> recordStarts \<sigma>
    \<and> recordStarts \<sigma> = count_list (goroutines \<sigma>) Forwarding + count_list (goroutines \<sigma>) Finished
    \<and> recordEnds \<sigma> = count_list (goroutines \<sigma>) Finished
    \<and> sint (activeConns (target \<sigma>)) = int (recordStarts \<sigma>) - int (recordEnds \<sigma>)
    \<and> 0 \<le> sint (activeConns (target \<sigma>))
    \<and> activeConns (fst (snd (Serve forward (target \<sigma>) lrw req))) = activeConns (target \<sigma>)"
proof -
  have "serve_inv \<sigma>"
    unfolding assms(2) using assms(1) by (intro serve_inv_run serve_inv_init)
  then have starts: "recordStarts \<sigma> = recordEnds \<sigma> + count_list (goroutines \<sigma>) Forwarding"
    and ends: "recordEnds \<sigma> = count_list (goroutines \<sigma>) Finished"
    and conns: "activeConns (target \<sigma>) = word_of_nat (count_list (goroutines \<sigma>) Forwarding)"
    by (simp_all add: serve_inv_def)
  from assms(3) have "sint (activeConns (target \<sigma>)) = int (count_list (goroutines \<sigma>) Forwarding)"
    unfolding conns by (rule sint_in_flight)
  with starts have exact: "sint (activeConns (target \<sigma>)) = int (recordStarts \<sigma>) - int (recordEnds \<sigma>)"
    and nonneg: "0 \<le> sint (activeConns (target \<sigma>))"
    by simp_all
  from starts ends exact nonneg Serve_balanced [of forward "target \<sigma>" lrw req]
  show ?thesis
    by simp
qed

theorem active_connections_are_starts_minus_ends_witness:
  "activeConns (backend ''A'' 0 True) = 0
   \<and> count_list (goroutines (run_schedule (serve_init (backend ''A'' 0 True) 3) [0, 1, 0, 2]))
        Forwarding < 2 ^ 31
   \<and> recordStarts (run_schedule (serve_init (backend ''A'' 0 True) 3) [0, 1, 0, 2]) = 3
   \<and> recordEnds (run_schedule (serve_init (backend ''A'' 0 True) 3) [0, 1, 0, 2]) = 1
   \<and> sint (activeConns (target (run_schedule (serve_init (backend ''A'' 0 True) 3) [0, 1, 0, 2]))) = 2"
proof -
  let ?\<sigma> = "run_schedule (serve_init (backend ''A'' 0 True) 3) [0, 1, 0, 2]"
  have h: "activeConns (backend ''A'' 0 True) = 0"
    by (simp add: backend_def)
  have "count_list (goroutines ?\<sigma>) Forwarding = 2"
    by code_simp
  then have fl: "count_list (goroutines ?\<sigma>) Forwarding < 2 ^ 31"
    by simp
  have st: "recordStarts ?\<sigma> = 3"
    by code_simp
  have en: "recordEnds ?\<sigma> = 1"
    by code_simp
  from active_connections_are_starts_minus_ends [OF h refl fl]
  have "sint (activeConns (target ?\<sigma>)) = int (recordStarts ?\<sigma>) - int (recordEnds ?\<sigma>)"
    by blast
  with st en have "sint (activeConns (target ?\<sigma>)) = 2"
    by simp
  with h fl st en show ?thesis
    by simp
qed

end
